theory Spec2Isabelle
  imports Complex_Main
begin

section \<open>Python values\<close>

text \<open>
  The values that \<^verbatim>\<open>response.json()\<close> can return, and that the script then passes around
  untyped: \<^verbatim>\<open>None\<close>, booleans, numbers, strings, lists and dicts. A dict is an association
  list read by \<open>map_of\<close>: the first binding of a key is its value. A character of a
  \<open>string\<close> stands for one character of a Python \<^verbatim>\<open>str\<close>.
\<close>

datatype json =
    JNull
  | JBool bool
  | JInt int
  | JFloat real
  | JStr string
  | JArr "json list"
  | JObj "(string \<times> json) list"

text \<open>
  The exceptions the script can meet. All of them are subclasses of \<^verbatim>\<open>Exception\<close>, so
  an \<^verbatim>\<open>except Exception\<close> handler catches each one.
\<close>

datatype py_error =
    RequestException    \<comment> \<open>\<^verbatim>\<open>requests.get\<close> failed: connection, timeout, ...\<close>
  | HTTPError nat       \<comment> \<open>raised by \<^verbatim>\<open>raise_for_status\<close>\<close>
  | JSONDecodeError     \<comment> \<open>raised by \<^verbatim>\<open>response.json()\<close>\<close>
  | AttributeError      \<comment> \<open>\<^verbatim>\<open>.get\<close> on a value that is not a dict\<close>
  | TypeError           \<comment> \<open>iterating or slicing a value that allows neither\<close>
  | APIError            \<comment> \<open>the chat completion request, or reading its first choice, failed\<close>

definition ebind :: "'e + 'a \<Rightarrow> ('a \<Rightarrow> 'e + 'b) \<Rightarrow> 'e + 'b" where
  "ebind m f = (case m of Inl e \<Rightarrow> Inl e | Inr x \<Rightarrow> f x)"

text \<open>A list comprehension whose element expression may raise: the first exception ends it.\<close>

fun emap :: "('a \<Rightarrow> 'e + 'b) \<Rightarrow> 'a list \<Rightarrow> 'e + 'b list" where
  "emap f [] = Inr []"
| "emap f (x # xs) = ebind (f x) (\<lambda>y. ebind (emap f xs) (\<lambda>ys. Inr (y # ys)))"

text \<open>Truth value of a Python object, as \<^verbatim>\<open>if x:\<close> and \<^verbatim>\<open>not x\<close> test it.\<close>

fun truthy :: "json \<Rightarrow> bool" where
  "truthy JNull = False"
| "truthy (JBool b) = b"
| "truthy (JInt n) = (n \<noteq> 0)"
| "truthy (JFloat x) = (x \<noteq> 0)"
| "truthy (JStr s) = (s \<noteq> [])"
| "truthy (JArr xs) = (xs \<noteq> [])"
| "truthy (JObj kvs) = (kvs \<noteq> [])"

fun is_list :: "json \<Rightarrow> bool" where
  "is_list (JArr xs) = True"
| "is_list _ = False"

text \<open>\<^verbatim>\<open>d.get(k, default)\<close>: only a dict has the method.\<close>

fun dict_get :: "json \<Rightarrow> string \<Rightarrow> json \<Rightarrow> py_error + json" where
  "dict_get (JObj kvs) k d = Inr (case map_of kvs k of None \<Rightarrow> d | Some v \<Rightarrow> v)"
| "dict_get _ k d = Inl AttributeError"

text \<open>
  \<^verbatim>\<open>x[:10]\<close>: strings and lists are sliced, every other value raises (a \<^verbatim>\<open>TypeError\<close>; for
  a dict a \<^verbatim>\<open>KeyError\<close> on recent interpreters, an exception either way).
\<close>

fun slice10 :: "json \<Rightarrow> py_error + json" where
  "slice10 (JStr s) = Inr (JStr (take 10 s))"
| "slice10 (JArr xs) = Inr (JArr (take 10 xs))"
| "slice10 _ = Inl TypeError"

text \<open>
  \<^verbatim>\<open>for a in x\<close>: a list yields its elements, a string its characters, a dict its keys;
  \<^verbatim>\<open>None\<close>, booleans and numbers are not iterable.
\<close>

fun py_iter :: "json \<Rightarrow> py_error + json list" where
  "py_iter (JArr xs) = Inr xs"
| "py_iter (JStr s) = Inr (map (\<lambda>c. JStr [c]) s)"
| "py_iter (JObj kvs) = Inr (map JStr (remdups (map fst kvs)))"
| "py_iter _ = Inl TypeError"

text \<open>\<^verbatim>\<open>"\n".join(lines)\<close>\<close>

definition nl :: string where
  "nl = [CHR 0x0A]"

definition quote :: string where
  "quote = [CHR 0x27]"

fun join_nl :: "string list \<Rightarrow> string" where
  "join_nl [] = []"
| "join_nl [l] = l"
| "join_nl (l # m # ls) = l @ nl @ join_nl (m # ls)"

section \<open>The world outside the script\<close>

text \<open>
  What the script cannot decide is a parameter: the outcome of the \<open>n\<close>-th HTTP request
  (for a search text and a page size), the outcome of the \<open>n\<close>-th chat completion (for a
  prompt), the clock, and Python's \<^verbatim>\<open>str()\<close> of a value that is not a string and of an
  exception. An HTTP response carries its status code and its body, \<open>None\<close> when the body
  is not JSON. The content of a completion is taken to be a text.
\<close>

datatype http_outcome =
    TransportFailure
  | HttpResponse nat "json option"

record env =
  http_get :: "nat \<Rightarrow> string \<Rightarrow> nat \<Rightarrow> http_outcome"
  chat_create :: "nat \<Rightarrow> string \<Rightarrow> py_error + string"
  now_text :: "nat \<Rightarrow> string"
  str_of :: "json \<Rightarrow> string"
  exc_text :: "py_error \<Rightarrow> string"

datatype ui_msg =
    St_info string
  | St_warning string
  | St_error string
  | St_success string

text \<open>
  The state the script reads and writes: \<^verbatim>\<open>st.session_state.reports\<close> (keyword to report,
  a report being a dict), the memo table of \<^verbatim>\<open>@st.cache_data\<close>, the number of HTTP
  requests sent, the prompts sent to the model, the number of clock reads, and the
  messages shown to the user. The spinners are transient and leave no message.
\<close>

type_synonym report = "string \<rightharpoonup> json"

type_synonym cache_key = "string \<times> json \<times> json"

record world =
  reports :: "string \<rightharpoonup> report"
  cache :: "cache_key \<rightharpoonup> ((string \<times> string) \<times> ui_msg list)"
  http_calls :: nat
  llm_log :: "string list"
  clock_reads :: nat
  ui :: "ui_msg list"

definition show_msg :: "ui_msg \<Rightarrow> world \<Rightarrow> world" where
  "show_msg m w = w\<lparr>ui := ui w @ [m]\<rparr>"

fun is_warning :: "ui_msg \<Rightarrow> bool" where
  "is_warning (St_warning m) = True"
| "is_warning _ = False"

fun is_error :: "ui_msg \<Rightarrow> bool" where
  "is_error (St_error m) = True"
| "is_error _ = False"

text \<open>A value inside an f-string: a string as it is, anything else through \<^verbatim>\<open>str()\<close>.\<close>

definition fmt :: "env \<Rightarrow> json \<Rightarrow> string" where
  "fmt E v = (case v of JStr s \<Rightarrow> s | _ \<Rightarrow> str_of E v)"

section \<open>Article Source Client: \<^verbatim>\<open>guardian_search\<close>\<close>

text \<open>
  The body of the \<^verbatim>\<open>try\<close> block, for the \<open>n\<close>-th request: \<^verbatim>\<open>requests.get\<close>,
  \<^verbatim>\<open>raise_for_status\<close> (which raises on a status from 400 to 599), \<^verbatim>\<open>response.json()\<close>
  and \<^verbatim>\<open>data.get("response", {}).get("results", [])\<close>.
\<close>

definition guardian_request :: "env \<Rightarrow> string \<Rightarrow> nat \<Rightarrow> nat \<Rightarrow> py_error + json" where
  "guardian_request E keyword page_size n =
     (case http_get E n keyword page_size of
        TransportFailure \<Rightarrow> Inl RequestException
      | HttpResponse status body \<Rightarrow>
          if 400 \<le> status \<and> status < 600 then Inl (HTTPError status)
          else (case body of
                  None \<Rightarrow> Inl JSONDecodeError
                | Some data \<Rightarrow>
                    ebind (dict_get data ''response'' (JObj []))
                      (\<lambda>r. dict_get r ''results'' (JArr []))))"

definition guardian_error :: "env \<Rightarrow> string \<Rightarrow> py_error \<Rightarrow> ui_msg" where
  "guardian_error E keyword e =
     St_error (''Guardian API call error while searching for '' @ quote @ keyword @ quote
               @ '': '' @ exc_text E e)"

definition guardian_search :: "env \<Rightarrow> string \<Rightarrow> nat \<Rightarrow> world \<Rightarrow> json \<times> world" where
  "guardian_search E keyword page_size w =
     (let w1 = w\<lparr>http_calls := Suc (http_calls w)\<rparr> in
      case guardian_request E keyword page_size (http_calls w) of
        Inr articles \<Rightarrow> (articles, w1)
      | Inl e \<Rightarrow> (JArr [], show_msg (guardian_error E keyword e) w1))"

section \<open>Report Generator: \<^verbatim>\<open>generate_analysis\<close>\<close>

definition article_line :: "env \<Rightarrow> json \<Rightarrow> py_error + string" where
  "article_line E a =
     ebind (dict_get a ''webTitle'' (JStr [])) (\<lambda>title.
     ebind (dict_get a ''webPublicationDate'' (JStr [])) (\<lambda>date.
     ebind (slice10 date) (\<lambda>date10.
     ebind (dict_get a ''fields'' (JObj [])) (\<lambda>fields.
     ebind (dict_get fields ''trailText'' (JStr [])) (\<lambda>trail.
     Inr (''- '' @ fmt E title @ '' ('' @ fmt E date10 @ '') - '' @ fmt E trail))))))"

definition article_texts :: "env \<Rightarrow> json \<Rightarrow> py_error + string" where
  "article_texts E articles =
     ebind (py_iter articles) (\<lambda>as.
     ebind (emap (article_line E) as) (\<lambda>ls. Inr (join_nl ls)))"

definition title_line :: "env \<Rightarrow> json \<Rightarrow> py_error + string" where
  "title_line E a =
     ebind (dict_get a ''webTitle'' (JStr [])) (\<lambda>title. Inr (''- '' @ fmt E title))"

definition previous_article_texts :: "env \<Rightarrow> json \<Rightarrow> py_error + string" where
  "previous_article_texts E previous_articles =
     ebind (py_iter previous_articles) (\<lambda>as.
     ebind (emap (title_line E) as) (\<lambda>ls. Inr (join_nl ls)))"

definition summary_prompt :: "string \<Rightarrow> string \<Rightarrow> string" where
  "summary_prompt keyword texts =
     nl @ ''    The following is a list of recent news articles for the keyword '' @ quote
        @ keyword @ quote @ ''.'' @ nl
     @ ''    Based on these articles, write a **one-page summary report** on the overall media trend in **English**.'' @ nl
     @ ''    (Include the general sentiment, key issues, and major related figures/companies. Format cleanly using Markdown.)'' @ nl
     @ ''    ---'' @ nl
     @ ''    Article List:'' @ nl
     @ ''    '' @ texts @ nl
     @ ''    ---'' @ nl
     @ ''    ''"

definition comparison_prompt :: "string \<Rightarrow> string \<Rightarrow> string \<Rightarrow> string" where
  "comparison_prompt keyword previous_texts texts =
     nl @ ''        Compare the previous list of articles with the latest list for the keyword '' @ quote
        @ keyword @ quote @ '' and analyze the **key shifts in media trends**.'' @ nl
     @ ''        Please structure the result using the following format:'' @ nl
     @ ''        ## Major Trend Change Analysis'' @ nl
     @ ''        ### 1. Key Shifts Summary'' @ nl
     @ ''        [Analysis content]'' @ nl
     @ ''        ### 2. Newly Emerging or Rising Issues'' @ nl
     @ ''        * [Issue 1]'' @ nl
     @ ''        * [Issue 2]'' @ nl
     @ ''        ### 3. Issues Decreasing in Importance'' @ nl
     @ ''        * [Issue 1]'' @ nl
     @ ''        '' @ nl
     @ ''        * Previous Article List: '' @ previous_texts @ nl
     @ ''        * Latest Article List: '' @ texts @ nl
     @ ''        ''"

definition no_previous_data_text :: string where
  "no_previous_data_text = ''No previous search data available to compare trend changes.''"

definition summary_failed_text :: string where
  "summary_failed_text = ''Failed to generate the summary report.''"

text \<open>
  \<^verbatim>\<open>client.chat.completions.create(...)\<close> followed by \<^verbatim>\<open>.choices[0].message.content\<close>:
  the prompt is sent (and logged), the outcome is the environment's.
\<close>

definition chat_completion :: "env \<Rightarrow> string \<Rightarrow> world \<Rightarrow> (py_error + string) \<times> world" where
  "chat_completion E prompt w =
     (chat_create E (length (llm_log w)) prompt, w\<lparr>llm_log := llm_log w @ [prompt]\<rparr>)"

text \<open>
  The trend part of the function: \<^verbatim>\<open>trend_change_text\<close> starts as the sentence about
  missing previous data; only \<^verbatim>\<open>if previous_articles:\<close> is the comparison prompt built and
  sent, and the \<^verbatim>\<open>except\<close> handler of that call shows an error and assigns nothing.
\<close>

definition trend_analysis ::
  "env \<Rightarrow> string \<Rightarrow> string \<Rightarrow> json \<Rightarrow> world \<Rightarrow> (py_error + string) \<times> world" where
  "trend_analysis E keyword texts previous_articles w =
     (let trend_change_text = no_previous_data_text in
      if truthy previous_articles then
        (case previous_article_texts E previous_articles of
           Inl e \<Rightarrow> (Inl e, w)
         | Inr previous_texts \<Rightarrow>
             (case chat_completion E (comparison_prompt keyword previous_texts texts) w of
                (Inr content, w1) \<Rightarrow> (Inr content, w1)
              | (Inl e, w1) \<Rightarrow>
                  (Inr trend_change_text,
                   show_msg (St_error (''OpenAI Trend Analysis Error: '' @ exc_text E e)) w1)))
      else (Inr trend_change_text, w))"

definition summary_report :: "env \<Rightarrow> string \<Rightarrow> world \<Rightarrow> string \<times> world" where
  "summary_report E prompt w =
     (case chat_completion E prompt w of
        (Inr content, w1) \<Rightarrow> (content, w1)
      | (Inl e, w1) \<Rightarrow>
          (summary_failed_text,
           show_msg (St_error (''OpenAI Summary Report Generation Error: '' @ exc_text E e)) w1))"

text \<open>The function as written, without its decorator.\<close>

definition generate_analysis_body ::
  "env \<Rightarrow> string \<Rightarrow> json \<Rightarrow> json \<Rightarrow> world \<Rightarrow> (py_error + string \<times> string) \<times> world" where
  "generate_analysis_body E keyword articles previous_articles w =
     (case article_texts E articles of
        Inl e \<Rightarrow> (Inl e, w)
      | Inr texts \<Rightarrow>
          (case trend_analysis E keyword texts previous_articles w of
             (Inl e, w1) \<Rightarrow> (Inl e, w1)
           | (Inr trend_change_text, w1) \<Rightarrow>
               (case summary_report E (summary_prompt keyword texts) w1 of
                  (current_summary, w2) \<Rightarrow> (Inr (current_summary, trend_change_text), w2))))"

text \<open>
  \<^verbatim>\<open>@st.cache_data\<close>: a memo table keyed by the values of the arguments, with no expiry
  set. A hit returns the stored pair without running the body and shows again the
  messages the stored run displayed; a miss runs the body and stores its return value.
  A call that raises stores nothing.
\<close>

definition generate_analysis ::
  "env \<Rightarrow> string \<Rightarrow> json \<Rightarrow> json \<Rightarrow> world \<Rightarrow> (py_error + string \<times> string) \<times> world" where
  "generate_analysis E keyword articles previous_articles w =
     (case cache w (keyword, articles, previous_articles) of
        Some (result, shown) \<Rightarrow> (Inr result, w\<lparr>ui := ui w @ shown\<rparr>)
      | None \<Rightarrow>
          (case generate_analysis_body E keyword articles previous_articles w of
             (Inl e, w1) \<Rightarrow> (Inl e, w1)
           | (Inr result, w1) \<Rightarrow>
               (Inr result,
                w1\<lparr>cache := (cache w1)((keyword, articles, previous_articles) \<mapsto>
                               (result, drop (length (ui w)) (ui w1)))\<rparr>)))"

section \<open>Run Orchestrator: \<^verbatim>\<open>run_agent\<close>\<close>

definition new_report :: "json \<Rightarrow> json \<Rightarrow> string \<Rightarrow> string \<Rightarrow> string \<Rightarrow> report" where
  "new_report articles previous_articles current_summary trend_change stamp =
     [''current'' \<mapsto> articles,
      ''previous'' \<mapsto> (if truthy previous_articles then previous_articles else JArr []),
      ''current_summary'' \<mapsto> JStr current_summary,
      ''trend_change'' \<mapsto> JStr trend_change,
      ''last_updated'' \<mapsto> JStr stamp]"

text \<open>
  \<^verbatim>\<open>st.session_state.reports.get(keyword, {}).get('current')\<close>: \<^verbatim>\<open>None\<close> when the keyword
  has no report, or the report no such key.
\<close>

definition previous_current :: "(string \<rightharpoonup> report) \<Rightarrow> string \<Rightarrow> json" where
  "previous_current store keyword =
     (case store keyword of
        None \<Rightarrow> JNull
      | Some previous_data \<Rightarrow>
          (case previous_data ''current'' of None \<Rightarrow> JNull | Some v \<Rightarrow> v))"

definition no_articles_warning :: "string \<Rightarrow> ui_msg" where
  "no_articles_warning keyword =
     St_warning (''Could not find recent articles for keyword '' @ quote @ keyword @ quote @ ''.'')"

text \<open>
  The \<^verbatim>\<open>for\<close> loop, with \<^verbatim>\<open>new_reports\<close> as accumulator. An exception of
  \<^verbatim>\<open>generate_analysis\<close> is not caught: it ends the loop and the run.
\<close>

fun run_loop ::
  "env \<Rightarrow> string list \<Rightarrow> (string \<rightharpoonup> report) \<Rightarrow> world \<Rightarrow> (py_error + (string \<rightharpoonup> report)) \<times> world" where
  "run_loop E [] new_reports w = (Inr new_reports, w)"
| "run_loop E (keyword # keywords) new_reports w =
     (case guardian_search E keyword 10 w of
        (articles, w1) \<Rightarrow>
          if \<not> truthy articles then
            run_loop E keywords new_reports (show_msg (no_articles_warning keyword) w1)
          else
            (let previous_articles = previous_current (reports w1) keyword in
             case generate_analysis E keyword articles previous_articles w1 of
               (Inl e, w2) \<Rightarrow> (Inl e, w2)
             | (Inr (current_summary, trend_change), w2) \<Rightarrow>
                 run_loop E keywords
                   (new_reports(keyword \<mapsto>
                      new_report articles previous_articles current_summary trend_change
                        (now_text E (clock_reads w2))))
                   (w2\<lparr>clock_reads := Suc (clock_reads w2)\<rparr>)))"

definition searching_info :: ui_msg where
  "searching_info = St_info ''Searching for new data and generating analysis reports. Please wait...''"

definition completed_success :: ui_msg where
  "completed_success = St_success ''Data search and analysis completed!''"

text \<open>
  The whole function: the loop fills \<^verbatim>\<open>new_reports\<close>, and only after it does
  \<^verbatim>\<open>st.session_state.reports.update(new_reports)\<close> write to the store.
\<close>

definition run_agent :: "env \<Rightarrow> string list \<Rightarrow> world \<Rightarrow> (py_error + unit) \<times> world" where
  "run_agent E keywords w =
     (case run_loop E keywords Map.empty (show_msg searching_info w) of
        (Inl e, w1) \<Rightarrow> (Inl e, w1)
      | (Inr new_reports, w1) \<Rightarrow>
          (Inr (), show_msg completed_success (w1\<lparr>reports := reports w1 ++ new_reports\<rparr>)))"

text \<open>Several runs one after the other; a run that ended in an exception leaves its world to the next.\<close>

fun run_many :: "env \<Rightarrow> string list list \<Rightarrow> world \<Rightarrow> world" where
  "run_many E [] w = w"
| "run_many E (keywords # rest) w = run_many E rest (snd (run_agent E keywords w))"

section \<open>Notions used to state the properties\<close>

text \<open>
  An article record as the data model has it: a dict whose title, publication date and
  teaser are strings, each of them possibly missing; the teaser sits in the \<^verbatim>\<open>fields\<close>
  object, which may be missing too.
\<close>

fun is_str :: "json \<Rightarrow> bool" where
  "is_str (JStr s) = True"
| "is_str _ = False"

fun is_dict :: "json \<Rightarrow> bool" where
  "is_dict (JObj kvs) = True"
| "is_dict _ = False"

definition text_or_missing :: "(string \<times> json) list \<Rightarrow> string \<Rightarrow> bool" where
  "text_or_missing kvs k = (case map_of kvs k of None \<Rightarrow> True | Some v \<Rightarrow> is_str v)"

fun article_record :: "json \<Rightarrow> bool" where
  "article_record (JObj kvs) =
     (text_or_missing kvs ''webTitle'' \<and> text_or_missing kvs ''webPublicationDate'' \<and>
      (case map_of kvs ''fields'' of
         None \<Rightarrow> True
       | Some (JObj fs) \<Rightarrow> text_or_missing fs ''trailText''
       | Some _ \<Rightarrow> False))"
| "article_record _ = False"

text \<open>
  The digest line the specification describes: title, the first 10 characters of the
  date, teaser; the empty string for a field that is missing.
\<close>

definition text_field :: "(string \<times> json) list \<Rightarrow> string \<Rightarrow> string" where
  "text_field kvs k = (case map_of kvs k of Some (JStr s) \<Rightarrow> s | _ \<Rightarrow> [])"

fun digest_line :: "json \<Rightarrow> string" where
  "digest_line (JObj kvs) =
     ''- '' @ text_field kvs ''webTitle''
     @ '' ('' @ take 10 (text_field kvs ''webPublicationDate'')
     @ '') - '' @ (case map_of kvs ''fields'' of Some (JObj fs) \<Rightarrow> text_field fs ''trailText'' | _ \<Rightarrow> [])"
| "digest_line _ = []"

text \<open>
  Every entry of the memo table is a value the function body returned for that key.
  The table is shared by all sessions, so a session may start with entries in it.
\<close>

definition cache_sound :: "env \<Rightarrow> world \<Rightarrow> bool" where
  "cache_sound E w \<longleftrightarrow>
     (\<forall>keyword articles previous_articles result shown.
        cache w (keyword, articles, previous_articles) = Some (result, shown) \<longrightarrow>
        (\<exists>w0 w1. generate_analysis_body E keyword articles previous_articles w0 = (Inr result, w1)))"

text \<open>What holds of every stored report.\<close>

definition report_keys :: "string set" where
  "report_keys = {''current'', ''previous'', ''current_summary'', ''trend_change'', ''last_updated''}"

definition report_ok :: "report \<Rightarrow> bool" where
  "report_ok r \<longleftrightarrow>
     dom r = report_keys
     \<and> (\<exists>as. r ''current'' = Some (JArr as) \<and> as \<noteq> [] \<and> list_all is_dict as)
     \<and> (\<exists>ps. r ''previous'' = Some (JArr ps) \<and> list_all is_dict ps)"

definition store_ok :: "(string \<rightharpoonup> report) \<Rightarrow> bool" where
  "store_ok store \<longleftrightarrow> (\<forall>keyword r. store keyword = Some r \<longrightarrow> report_ok r)"

text \<open>The result of the \<open>n\<close>-th search, as \<^verbatim>\<open>guardian_search\<close> returns it.\<close>

definition fetched :: "env \<Rightarrow> string \<Rightarrow> nat \<Rightarrow> json" where
  "fetched E keyword n = (case guardian_request E keyword 10 n of Inl e \<Rightarrow> JArr [] | Inr v \<Rightarrow> v)"

text \<open>The prompts sent to the model between two worlds.\<close>

definition sent_between :: "world \<Rightarrow> world \<Rightarrow> string list" where
  "sent_between w w1 = drop (length (llm_log w)) (llm_log w1)"

fun is_comparison_prompt :: "string \<Rightarrow> bool" where
  "is_comparison_prompt p = (take 17 p = nl @ ''        Compare '')"

section \<open>Sample data\<close>

definition sample_articles :: "json list" where
  "sample_articles =
     [JObj [(''webTitle'', JStr ''Qubits at scale''),
            (''webPublicationDate'', JStr ''2024-05-06T07:08:09Z''),
            (''fields'', JObj [(''trailText'', JStr ''A new chip'')])],
      JObj [(''webUrl'', JStr ''https://example.org/x'')]]"

definition older_articles :: "json list" where
  "older_articles = [JObj [(''webTitle'', JStr ''Error correction'')]]"

definition envelope :: "json \<Rightarrow> json" where
  "envelope results = JObj [(''response'', JObj [(''status'', JStr ''ok''), (''results'', results)])]"

definition sample_env ::
  "(nat \<Rightarrow> string \<Rightarrow> nat \<Rightarrow> http_outcome) \<Rightarrow> (nat \<Rightarrow> string \<Rightarrow> py_error + string) \<Rightarrow> env" where
  "sample_env net model =
     \<lparr>http_get = net, chat_create = model, now_text = (\<lambda>n. ''2024-05-06 07:08:09''),
      str_of = (\<lambda>v. ''?''), exc_text = (\<lambda>e. ''failure'')\<rparr>"

definition net_ok :: "nat \<Rightarrow> string \<Rightarrow> nat \<Rightarrow> http_outcome" where
  "net_ok n keyword page_size = HttpResponse 200 (Some (envelope (JArr sample_articles)))"

definition net_null :: "nat \<Rightarrow> string \<Rightarrow> nat \<Rightarrow> http_outcome" where
  "net_null n keyword page_size = HttpResponse 200 (Some (envelope JNull))"

definition net_mixed :: "nat \<Rightarrow> string \<Rightarrow> nat \<Rightarrow> http_outcome" where
  "net_mixed n keyword page_size =
     (if keyword = ''climate'' then HttpResponse 200 (Some (envelope (JInt 7)))
      else HttpResponse 200 (Some (envelope (JArr sample_articles))))"

definition net_down :: "nat \<Rightarrow> string \<Rightarrow> nat \<Rightarrow> http_outcome" where
  "net_down n keyword page_size = HttpResponse 500 None"

definition model_ok :: "nat \<Rightarrow> string \<Rightarrow> py_error + string" where
  "model_ok n prompt = Inr ''generated text''"

definition model_first_fails :: "nat \<Rightarrow> string \<Rightarrow> py_error + string" where
  "model_first_fails n prompt = (if n = 0 then Inl APIError else Inr ''generated text'')"

definition start_world :: world where
  "start_world =
     \<lparr>reports = Map.empty, cache = Map.empty, http_calls = 0, llm_log = [], clock_reads = 0, ui = []\<rparr>"

definition older_world :: world where
  "older_world =
     start_world\<lparr>reports :=
       [''quantum'' \<mapsto> new_report (JArr older_articles) JNull ''old summary''
                        no_previous_data_text ''2024-05-05 07:08:09'']\<rparr>"

section \<open>Basic facts\<close>

lemma ebind_Inl [simp]: "ebind (Inl e) f = Inl e"
  by (simp add: ebind_def)

lemma ebind_Inr [simp]: "ebind (Inr x) f = f x"
  by (simp add: ebind_def)

lemma ebind_eq_Inr: "ebind m f = Inr y \<longleftrightarrow> (\<exists>x. m = Inr x \<and> f x = Inr y)"
  by (cases m) simp_all

lemma fmt_JStr [simp]: "fmt E (JStr s) = s"
  by (simp add: fmt_def)

lemma is_str_cases: "is_str v \<Longrightarrow> \<exists>s. v = JStr s"
  by (cases v) simp_all

lemma emap_all_Inr:
  "(\<And>x. x \<in> set xs \<Longrightarrow> f x = Inr (g x)) \<Longrightarrow> emap f xs = Inr (map g xs)"
  by (induction xs) simp_all

section \<open>The digest of the current articles\<close>

lemma text_or_missing_get:
  "text_or_missing kvs k \<Longrightarrow>
     (case map_of kvs k of None \<Rightarrow> JStr [] | Some v \<Rightarrow> v) = JStr (text_field kvs k)"
  by (auto simp: text_or_missing_def text_field_def split: option.splits dest: is_str_cases)

lemma article_line_record:
  assumes "article_record a"
  shows "article_line E a = Inr (digest_line a)"
proof (cases a)
  case (JObj kvs)
  with assms have t: "text_or_missing kvs ''webTitle''"
    and d: "text_or_missing kvs ''webPublicationDate''" by simp_all
  show ?thesis
  proof (cases "map_of kvs ''fields''")
    case None
    then show ?thesis
      unfolding article_line_def JObj
      by (simp add: text_or_missing_get [OF t] text_or_missing_get [OF d] text_field_def)
  next
    case (Some f)
    with assms JObj obtain fs where f: "f = JObj fs" and tt: "text_or_missing fs ''trailText''"
      by (cases f) simp_all
    show ?thesis
      unfolding article_line_def JObj
      by (simp add: text_or_missing_get [OF t] text_or_missing_get [OF d]
            text_or_missing_get [OF tt] Some f)
  qed
qed (use assms in simp_all)

text \<open>
  C6. For every list of article records, records with missing fields included, the digest
  of the current articles is built without failure and is the newline-joined list of one
  line per article, in order: the title, the first 10 characters of the publication date
  and the teaser, the empty string standing for each missing field.
\<close>

theorem article_texts_digest:
  assumes "\<forall>a \<in> set as. article_record a"
  shows "article_texts E (JArr as) = Inr (join_nl (map digest_line as))
         \<and> length (map digest_line as) = length as"
  using assms by (simp add: article_texts_def emap_all_Inr article_line_record)

theorem article_texts_digest_witness:
  "list_all article_record sample_articles
   \<and> article_texts (sample_env net_ok model_ok) (JArr sample_articles)
       = Inr (''- Qubits at scale (2024-05-06) - A new chip'' @ nl @ ''-  () - '')"
  using article_texts_digest [of sample_articles "sample_env net_ok model_ok"]
  by (simp add: sample_articles_def text_or_missing_def text_field_def)

section \<open>What each function leaves unchanged\<close>

lemma show_msg_simps [simp]:
  "reports (show_msg m w) = reports w"
  "cache (show_msg m w) = cache w"
  "http_calls (show_msg m w) = http_calls w"
  "llm_log (show_msg m w) = llm_log w"
  "clock_reads (show_msg m w) = clock_reads w"
  "ui (show_msg m w) = ui w @ [m]"
  by (simp_all add: show_msg_def)

lemma guardian_search_fst: "fst (guardian_search E k 10 w) = fetched E k (http_calls w)"
  by (simp add: guardian_search_def fetched_def Let_def split: sum.splits)

lemma guardian_search_frame:
  assumes "guardian_search E k ps w = (a, w1)"
  shows "reports w1 = reports w" and "cache w1 = cache w"
    and "http_calls w1 = Suc (http_calls w)" and "llm_log w1 = llm_log w"
    and "clock_reads w1 = clock_reads w"
  using assms by (auto simp: guardian_search_def Let_def split: sum.splits)

lemma trend_analysis_frame:
  assumes "trend_analysis E k texts p w = (r, w1)"
  shows "reports w1 = reports w" and "cache w1 = cache w"
    and "http_calls w1 = http_calls w" and "clock_reads w1 = clock_reads w"
  using assms
  by (auto simp: trend_analysis_def chat_completion_def Let_def split: if_splits sum.splits)

lemma summary_report_frame:
  assumes "summary_report E prompt w = (s, w1)"
  shows "reports w1 = reports w" and "cache w1 = cache w"
    and "http_calls w1 = http_calls w" and "clock_reads w1 = clock_reads w"
    and "llm_log w1 = llm_log w @ [prompt]"
  using assms
  by (auto simp: summary_report_def chat_completion_def split: sum.splits)

lemma generate_analysis_body_cases:
  assumes "generate_analysis_body E k a p w = (res, w2)"
  obtains (digest_raises) e where "article_texts E a = Inl e" "res = Inl e" "w2 = w"
  | (trend_raises) texts e where "article_texts E a = Inr texts"
      "trend_analysis E k texts p w = (Inl e, w2)" "res = Inl e"
  | (returns) texts trend w1 summary where "article_texts E a = Inr texts"
      "trend_analysis E k texts p w = (Inr trend, w1)"
      "summary_report E (summary_prompt k texts) w1 = (summary, w2)"
      "res = Inr (summary, trend)"
proof (cases "article_texts E a")
  case (Inl e)
  with assms digest_raises show ?thesis
    by (simp add: generate_analysis_body_def)
next
  case (Inr texts)
  obtain tr w1 where t: "trend_analysis E k texts p w = (tr, w1)"
    by (cases "trend_analysis E k texts p w")
  show ?thesis
  proof (cases tr)
    case (Inl e)
    with assms Inr t trend_raises show ?thesis
      by (simp add: generate_analysis_body_def)
  next
    case trend: (Inr trend)
    obtain summary w2' where s: "summary_report E (summary_prompt k texts) w1 = (summary, w2')"
      by (cases "summary_report E (summary_prompt k texts) w1")
    with assms Inr t trend returns show ?thesis
      by (simp add: generate_analysis_body_def)
  qed
qed

lemma generate_analysis_body_frame:
  assumes "generate_analysis_body E k a p w = (res, w2)"
  shows "reports w2 = reports w" and "cache w2 = cache w"
    and "http_calls w2 = http_calls w" and "clock_reads w2 = clock_reads w"
  using assms
  by (cases rule: generate_analysis_body_cases;
      simp add: trend_analysis_frame summary_report_frame)+

lemma generate_analysis_body_digest:
  assumes "generate_analysis_body E k a p w = (Inr r, w2)"
  shows "\<exists>texts. article_texts E a = Inr texts"
  using assms by (cases rule: generate_analysis_body_cases) simp_all

section \<open>The memo table\<close>

lemma generate_analysis_cases:
  assumes "generate_analysis E k a p w = (res, w2)"
  obtains (hit) r shown where "cache w (k, a, p) = Some (r, shown)" "res = Inr r"
      "w2 = w\<lparr>ui := ui w @ shown\<rparr>"
  | (miss_raises) e where "cache w (k, a, p) = None"
      "generate_analysis_body E k a p w = (Inl e, w2)" "res = Inl e"
  | (miss_returns) r w1 where "cache w (k, a, p) = None"
      "generate_analysis_body E k a p w = (Inr r, w1)" "res = Inr r"
      "w2 = w1\<lparr>cache := (cache w1)((k, a, p) \<mapsto> (r, drop (length (ui w)) (ui w1)))\<rparr>"
proof (cases "cache w (k, a, p)")
  case None
  obtain b w1 where b: "generate_analysis_body E k a p w = (b, w1)"
    by (cases "generate_analysis_body E k a p w")
  show ?thesis
  proof (cases b)
    case (Inl e)
    with assms None b show ?thesis
      by (intro miss_raises [of e]) (auto simp: generate_analysis_def)
  next
    case (Inr r)
    with assms None b show ?thesis
      by (intro miss_returns [of r w1]) (auto simp: generate_analysis_def)
  qed
next
  case (Some v)
  with assms show ?thesis
    by (cases v) (auto simp: generate_analysis_def intro: hit)
qed

lemma generate_analysis_frame:
  assumes "generate_analysis E k a p w = (res, w2)"
  shows "reports w2 = reports w" and "http_calls w2 = http_calls w"
    and "clock_reads w2 = clock_reads w"
  using assms
  by (cases rule: generate_analysis_cases; simp add: generate_analysis_body_frame)+

lemma generate_analysis_cache_le:
  assumes "generate_analysis E k a p w = (res, w2)"
  shows "cache w \<subseteq>\<^sub>m cache w2"
  using assms
proof (cases rule: generate_analysis_cases)
  case (miss_returns r w1)
  then have "cache w1 = cache w"
    by (simp add: generate_analysis_body_frame)
  with miss_returns show ?thesis
    by (auto simp: map_le_def)
qed (simp_all add: generate_analysis_body_frame)

lemma generate_analysis_cache_sound:
  assumes "generate_analysis E k a p w = (res, w2)" and "cache_sound E w"
  shows "cache_sound E w2"
  using assms(1)
proof (cases rule: generate_analysis_cases)
  case (hit r shown)
  with assms(2) show ?thesis by (simp add: cache_sound_def)
next
  case (miss_raises e)
  then have "cache w2 = cache w" by (simp add: generate_analysis_body_frame)
  with assms(2) show ?thesis by (simp add: cache_sound_def)
next
  case (miss_returns r w1)
  then have c: "cache w1 = cache w" by (simp add: generate_analysis_body_frame)
  show ?thesis
    unfolding cache_sound_def
  proof (intro allI impI)
    fix k' a' p' r' shown'
    assume h: "cache w2 (k', a', p') = Some (r', shown')"
    show "\<exists>w0 w1. generate_analysis_body E k' a' p' w0 = (Inr r', w1)"
    proof (cases "(k', a', p') = (k, a, p)")
      case True
      with h miss_returns show ?thesis by auto
    next
      case False
      with h miss_returns c have "cache w (k', a', p') = Some (r', shown')"
        by (auto split: if_splits)
      with assms(2) show ?thesis unfolding cache_sound_def by blast
    qed
  qed
qed

lemma generate_analysis_digest:
  assumes "generate_analysis E k a p w = (Inr r, w2)" and "cache_sound E w"
  shows "\<exists>texts. article_texts E a = Inr texts"
  using assms(1)
proof (cases rule: generate_analysis_cases)
  case (hit r' shown)
  with assms(2) obtain w0 w1 where "generate_analysis_body E k a p w0 = (Inr r', w1)"
    unfolding cache_sound_def by blast
  then show ?thesis by (rule generate_analysis_body_digest)
next
  case (miss_returns r' w1)
  then show ?thesis by (simp add: generate_analysis_body_digest)
qed simp

lemma run_loop_Cons_cases:
  assumes "run_loop E (k # ks) nr w = res"
  obtains (skip) a w1 where "guardian_search E k 10 w = (a, w1)" "\<not> truthy a"
      "res = run_loop E ks nr (show_msg (no_articles_warning k) w1)"
  | (raises) a w1 e w2 where "guardian_search E k 10 w = (a, w1)" "truthy a"
      "generate_analysis E k a (previous_current (reports w1) k) w1 = (Inl e, w2)"
      "res = (Inl e, w2)"
  | (stores) a w1 s t w2 where "guardian_search E k 10 w = (a, w1)" "truthy a"
      "generate_analysis E k a (previous_current (reports w1) k) w1 = (Inr (s, t), w2)"
      "res = run_loop E ks
               (nr(k \<mapsto> new_report a (previous_current (reports w1) k) s t
                            (now_text E (clock_reads w2))))
               (w2\<lparr>clock_reads := Suc (clock_reads w2)\<rparr>)"
proof -
  obtain a w1 where g: "guardian_search E k 10 w = (a, w1)"
    by (cases "guardian_search E k 10 w")
  show ?thesis
  proof (cases "truthy a")
    case False
    with assms g skip show ?thesis by simp
  next
    case True
    obtain b w2 where b: "generate_analysis E k a (previous_current (reports w1) k) w1 = (b, w2)"
      by (cases "generate_analysis E k a (previous_current (reports w1) k) w1")
    show ?thesis
    proof (cases b)
      case (Inl e)
      with assms g True b raises show ?thesis by simp
    next
      case (Inr r)
      with assms g True b stores show ?thesis by (cases r) simp
    qed
  qed
qed

section \<open>Invariants of the loop\<close>

lemma cache_sound_cong: "cache w1 = cache w \<Longrightarrow> cache_sound E w1 = cache_sound E w"
  by (simp add: cache_sound_def)

lemma run_loop_frame:
  assumes "run_loop E ks nr w = (res, w')"
  shows "reports w' = reports w \<and> cache w \<subseteq>\<^sub>m cache w' \<and> (cache_sound E w \<longrightarrow> cache_sound E w')"
  using assms
proof (induction ks arbitrary: nr w)
  case Nil
  then show ?case by simp
next
  case (Cons k ks)
  from Cons.prems show ?case
  proof (cases rule: run_loop_Cons_cases)
    case (skip a w1)
    let ?w = "show_msg (no_articles_warning k) w1"
    have c: "cache ?w = cache w" and r: "reports ?w = reports w"
      using guardian_search_frame [OF skip(1)] by simp_all
    from Cons.IH [OF skip(3) [symmetric]] show ?thesis
      unfolding c r cache_sound_cong [OF c] .
  next
    case (raises a w1 e w2)
    have c: "cache w1 = cache w" and r: "reports w1 = reports w"
      using guardian_search_frame [OF raises(1)] by simp_all
    from generate_analysis_frame(1) [OF raises(3)] generate_analysis_cache_le [OF raises(3)]
      generate_analysis_cache_sound [OF raises(3)] raises(4)
    show ?thesis
      unfolding c r cache_sound_cong [OF c] by simp
  next
    case (stores a w1 s t w2)
    let ?w = "w2\<lparr>clock_reads := Suc (clock_reads w2)\<rparr>"
    have c: "cache w1 = cache w" and r: "reports w1 = reports w"
      using guardian_search_frame [OF stores(1)] by simp_all
    have c2: "cache ?w = cache w2" and r2: "reports ?w = reports w"
      using generate_analysis_frame(1) [OF stores(3)] r by simp_all
    have le: "cache w \<subseteq>\<^sub>m cache w2"
      using generate_analysis_cache_le [OF stores(3)] unfolding c .
    have snd: "cache_sound E w \<longrightarrow> cache_sound E w2"
      using generate_analysis_cache_sound [OF stores(3)] unfolding cache_sound_cong [OF c] by blast
    from Cons.IH [OF stores(4) [symmetric]]
    have "reports w' = reports w" and "cache w2 \<subseteq>\<^sub>m cache w'"
      and "cache_sound E w2 \<longrightarrow> cache_sound E w'"
      unfolding c2 r2 cache_sound_cong [OF c2] by simp_all
    with le snd show ?thesis
      by (blast intro: map_le_trans)
  qed
qed


lemma run_loop_skipped:
  assumes "run_loop E ks nr w = (Inr nr', w')"
    and "\<forall>i < length ks. ks ! i = k \<longrightarrow> \<not> truthy (fetched E k (http_calls w + i))"
  shows "nr' k = nr k"
  using assms
proof (induction ks arbitrary: nr w)
  case Nil
  then show ?case by simp
next
  case (Cons k0 ks)
  have rest: "\<forall>i < length ks. ks ! i = k \<longrightarrow> \<not> truthy (fetched E k (http_calls v + i))"
    if "http_calls v = Suc (http_calls w)" for v
  proof (intro allI impI)
    fix i assume "i < length ks" "ks ! i = k"
    with Cons.prems(2) [rule_format, of "Suc i"] that
    show "\<not> truthy (fetched E k (http_calls v + i))" by simp
  qed
  from Cons.prems(1) show ?case
  proof (cases rule: run_loop_Cons_cases)
    case (skip a w1)
    have "http_calls (show_msg (no_articles_warning k0) w1) = Suc (http_calls w)"
      using guardian_search_frame [OF skip(1)] by simp
    from Cons.IH [OF skip(3) [symmetric] rest [OF this]] show ?thesis .
  next
    case (raises a w1 e w2)
    then show ?thesis by simp
  next
    case (stores a w1 s t w2)
    have a: "a = fetched E k0 (http_calls w)"
      using guardian_search_fst [of E k0 w] stores(1) by simp
    with stores(2) Cons.prems(2) [rule_format, of 0] have ne: "k0 \<noteq> k" by auto
    have "http_calls (w2\<lparr>clock_reads := Suc (clock_reads w2)\<rparr>) = Suc (http_calls w)"
      using guardian_search_frame [OF stores(1)] generate_analysis_frame [OF stores(3)] by simp
    from Cons.IH [OF stores(4) [symmetric] rest [OF this]] ne show ?thesis by simp
  qed
qed


section \<open>The store after a run\<close>

lemma run_agent_cases:
  assumes "run_agent E ks w = (res, w')"
  obtains (aborted) e where "run_loop E ks Map.empty (show_msg searching_info w) = (Inl e, w')"
      "res = Inl e"
  | (completed) batch wl where
      "run_loop E ks Map.empty (show_msg searching_info w) = (Inr batch, wl)"
      "res = Inr ()"
      "w' = show_msg completed_success (wl\<lparr>reports := reports wl ++ batch\<rparr>)"
proof -
  obtain b wl where l: "run_loop E ks Map.empty (show_msg searching_info w) = (b, wl)"
    by (cases "run_loop E ks Map.empty (show_msg searching_info w)")
  show ?thesis
  proof (cases b)
    case (Inl e)
    with assms l show ?thesis
      by (intro aborted [of e]) (auto simp: run_agent_def)
  next
    case (Inr batch)
    with assms l show ?thesis
      by (intro completed [of batch wl]) (auto simp: run_agent_def)
  qed
qed


text \<open>
  C2. A keyword whose every fetch in a run returns no articles keeps its entry in the
  store, or its absence from it, exactly as before the run, however the run ends.
\<close>

theorem run_agent_empty_fetch_untouched:
  assumes "run_agent E ks w = (res, w')"
    and "\<forall>i < length ks. ks ! i = k \<longrightarrow> \<not> truthy (fetched E k (http_calls w + i))"
  shows "reports w' k = reports w k"
  using assms(1)
proof (cases rule: run_agent_cases)
  case (aborted e)
  with run_loop_frame [OF aborted(1)] show ?thesis by simp
next
  case (completed batch wl)
  have "batch k = Map.empty k"
    by (rule run_loop_skipped [OF completed(1)]) (use assms(2) in simp)
  with completed(3) run_loop_frame [OF completed(1)] show ?thesis
    by (simp add: map_add_def)
qed


section \<open>What every stored report satisfies\<close>

lemma article_line_dict: "article_line E a = Inr l \<Longrightarrow> is_dict a"
  by (cases a) (simp_all add: article_line_def)

lemma emap_article_line_dicts:
  "emap (article_line E) as = Inr ls \<Longrightarrow> list_all is_dict as"
proof (induction as arbitrary: ls)
  case Nil
  then show ?case by simp
next
  case (Cons a as)
  then show ?case
    by (auto simp: ebind_eq_Inr dest: article_line_dict)
qed

lemma article_texts_truthy:
  assumes "article_texts E a = Inr texts" and "truthy a"
  shows "\<exists>as. a = JArr as \<and> as \<noteq> [] \<and> list_all is_dict as"
proof (cases a)
  case (JStr s)
  with assms(2) obtain c cs where "s = c # cs" by (cases s) simp_all
  with assms(1) JStr show ?thesis
    by (simp add: article_texts_def article_line_def)
next
  case (JArr as)
  with assms show ?thesis
    by (auto simp: article_texts_def ebind_eq_Inr dest: emap_article_line_dicts)
next
  case (JObj kvs)
  with assms(2) have "remdups (map fst kvs) \<noteq> []" by simp
  then obtain k ks where "remdups (map fst kvs) = k # ks"
    by (cases "remdups (map fst kvs)") simp_all
  with assms(1) JObj show ?thesis
    by (simp add: article_texts_def article_line_def)
qed (use assms in \<open>simp_all add: article_texts_def\<close>)

lemma previous_current_ok:
  assumes "store_ok store"
  shows "previous_current store k = JNull
         \<or> (\<exists>ps. previous_current store k = JArr ps \<and> ps \<noteq> [] \<and> list_all is_dict ps)"
proof (cases "store k")
  case None
  then show ?thesis by (simp add: previous_current_def)
next
  case (Some r)
  with assms have "report_ok r" by (simp add: store_ok_def)
  with Some show ?thesis
    by (auto simp: previous_current_def report_ok_def)
qed

lemma new_report_ok:
  assumes "a = JArr as" "as \<noteq> []" "list_all is_dict as"
    and "pc = JNull \<or> (\<exists>ps. pc = JArr ps \<and> ps \<noteq> [] \<and> list_all is_dict ps)"
  shows "report_ok (new_report a pc s t stamp)"
proof -
  have "dom (new_report a pc s t stamp) = report_keys"
    by (auto simp: new_report_def report_keys_def split: if_splits)
  moreover have "\<exists>ps. new_report a pc s t stamp ''previous'' = Some (JArr ps) \<and> list_all is_dict ps"
    using assms(4) by (auto simp: new_report_def)
  moreover have "new_report a pc s t stamp ''current'' = Some a"
    by (simp add: new_report_def)
  ultimately show ?thesis
    using assms(1-3) by (simp add: report_ok_def)
qed

lemma run_loop_reports_ok:
  assumes "run_loop E ks nr w = (Inr nr', w')"
    and "store_ok (reports w)" and "cache_sound E w" and "store_ok nr"
  shows "store_ok nr'"
  using assms
proof (induction ks arbitrary: nr w)
  case Nil
  then show ?case by simp
next
  case (Cons k ks)
  from Cons.prems(1) show ?case
  proof (cases rule: run_loop_Cons_cases)
    case (skip a w1)
    let ?w = "show_msg (no_articles_warning k) w1"
    have "reports ?w = reports w" "cache ?w = cache w"
      using guardian_search_frame [OF skip(1)] by simp_all
    with Cons.prems have "store_ok (reports ?w)" "cache_sound E ?w"
      by (simp_all add: cache_sound_def)
    from Cons.IH [OF skip(3) [symmetric] this Cons.prems(4)] show ?thesis .
  next
    case (raises a w1 e w2)
    then show ?thesis by simp
  next
    case (stores a w1 s t w2)
    let ?w = "w2\<lparr>clock_reads := Suc (clock_reads w2)\<rparr>"
    let ?r = "new_report a (previous_current (reports w1) k) s t (now_text E (clock_reads w2))"
    have f1: "reports w1 = reports w" "cache w1 = cache w"
      using guardian_search_frame [OF stores(1)] by simp_all
    with Cons.prems have s1: "cache_sound E w1" "store_ok (reports w1)"
      by (simp_all add: cache_sound_def)
    obtain texts where "article_texts E a = Inr texts"
      using generate_analysis_digest [OF stores(3) s1(1)] by blast
    with stores(2) obtain as where as: "a = JArr as" "as \<noteq> []" "list_all is_dict as"
      using article_texts_truthy by blast
    have "report_ok ?r"
      using as previous_current_ok [OF s1(2)] by (rule new_report_ok)
    with Cons.prems(4) have nr: "store_ok (nr(k \<mapsto> ?r))"
      by (simp add: store_ok_def)
    have "reports ?w = reports w"
      using generate_analysis_frame [OF stores(3)] f1 by simp
    with Cons.prems(2) have r: "store_ok (reports ?w)" by simp
    have "cache_sound E w2"
      using generate_analysis_cache_sound [OF stores(3) s1(1)] .
    then have c: "cache_sound E ?w" by (simp add: cache_sound_def)
    from Cons.IH [OF stores(4) [symmetric] r c nr] show ?thesis .
  qed
qed

lemma run_loop_first_previous:
  assumes "run_loop E ks nr w = (Inr nr', w')" and "reports w k = None"
    and "\<forall>r. nr k = Some r \<longrightarrow> r ''previous'' = Some (JArr [])"
  shows "\<forall>r. nr' k = Some r \<longrightarrow> r ''previous'' = Some (JArr [])"
  using assms
proof (induction ks arbitrary: nr w)
  case Nil
  then show ?case by simp
next
  case (Cons k0 ks)
  from Cons.prems(1) show ?case
  proof (cases rule: run_loop_Cons_cases)
    case (skip a w1)
    let ?w = "show_msg (no_articles_warning k0) w1"
    have "reports ?w k = None"
      using guardian_search_frame [OF skip(1)] Cons.prems(2) by simp
    from Cons.IH [OF skip(3) [symmetric] this Cons.prems(3)] show ?thesis .
  next
    case (raises a w1 e w2)
    then show ?thesis by simp
  next
    case (stores a w1 s t w2)
    let ?w = "w2\<lparr>clock_reads := Suc (clock_reads w2)\<rparr>"
    let ?nr = "nr(k0 \<mapsto> new_report a (previous_current (reports w1) k0) s t (now_text E (clock_reads w2)))"
    have f1: "reports w1 = reports w"
      using guardian_search_frame [OF stores(1)] by simp
    have r: "reports ?w k = None"
      using generate_analysis_frame [OF stores(3)] f1 Cons.prems(2) by simp
    have "\<forall>r. ?nr k = Some r \<longrightarrow> r ''previous'' = Some (JArr [])"
      using Cons.prems(2,3) f1 by (auto simp: new_report_def previous_current_def)
    from Cons.IH [OF stores(4) [symmetric] r this] show ?thesis .
  qed
qed

lemma run_agent_invariant:
  assumes "store_ok (reports w)" and "cache_sound E w"
  shows "store_ok (reports (snd (run_agent E ks w))) \<and> cache_sound E (snd (run_agent E ks w))"
proof -
  obtain res w' where run: "run_agent E ks w = (res, w')"
    by (cases "run_agent E ks w")
  let ?w = "show_msg searching_info w"
  have s: "store_ok (reports ?w)" "cache_sound E ?w"
    using assms by (simp_all add: cache_sound_def)
  from run have "store_ok (reports w') \<and> cache_sound E w'"
  proof (cases rule: run_agent_cases)
    case (aborted e)
    with run_loop_frame [OF aborted(1)] s show ?thesis by simp
  next
    case (completed batch wl)
    have "store_ok batch"
      by (rule run_loop_reports_ok [OF completed(1) s]) (simp add: store_ok_def)
    moreover have "reports wl = reports w" "cache_sound E wl"
      using run_loop_frame [OF completed(1)] s by simp_all
    ultimately show ?thesis
      using completed(3) assms(1)
      by (auto simp: store_ok_def cache_sound_def map_add_def split: option.splits)
  qed
  with run show ?thesis by simp
qed

lemma run_many_invariant:
  assumes "store_ok (reports w)" and "cache_sound E w"
  shows "store_ok (reports (run_many E kss w)) \<and> cache_sound E (run_many E kss w)"
  using assms
proof (induction kss arbitrary: w)
  case Nil
  then show ?case by simp
next
  case (Cons ks kss)
  from run_agent_invariant [OF Cons.prems, of ks] Cons.IH show ?case by simp
qed

lemma run_many_snoc: "run_many E (kss @ [ks]) w = snd (run_agent E ks (run_many E kss w))"
  by (induction kss arbitrary: w) simp_all

lemma run_agent_first_previous:
  assumes "reports w k = None" and "reports (snd (run_agent E ks w)) k = Some r"
  shows "r ''previous'' = Some (JArr [])"
proof -
  obtain res w' where run: "run_agent E ks w = (res, w')"
    by (cases "run_agent E ks w")
  from run show ?thesis
  proof (cases rule: run_agent_cases)
    case (aborted e)
    with run_loop_frame [OF aborted(1)] assms run show ?thesis by simp
  next
    case (completed batch wl)
    have "\<forall>r. batch k = Some r \<longrightarrow> r ''previous'' = Some (JArr [])"
      by (rule run_loop_first_previous [OF completed(1)]) (use assms(1) in simp_all)
    moreover have "reports wl = reports w"
      using run_loop_frame [OF completed(1)] by simp
    ultimately show ?thesis
      using completed(3) assms run by (auto simp: map_add_def split: option.splits)
  qed
qed

text \<open>
  C9. Starting from the empty store (and a memo table holding only values the function
  returned), after any sequence of runs every stored report has exactly the five keys,
  its \<^verbatim>\<open>current\<close> is a non-empty list of dicts and its \<^verbatim>\<open>previous\<close> is a list of dicts,
  never \<^verbatim>\<open>None\<close>; and a report written for a keyword that had none before the run has
  the empty list as \<^verbatim>\<open>previous\<close>.
\<close>

theorem store_invariant:
  assumes "reports w = Map.empty" and "cache_sound E w"
  shows "store_ok (reports (run_many E kss w))
         \<and> (\<forall>ks k r. reports (run_many E kss w) k = None
              \<longrightarrow> reports (run_many E (kss @ [ks]) w) k = Some r
              \<longrightarrow> r ''previous'' = Some (JArr []))"
proof -
  have "store_ok (reports w)" using assms(1) by (simp add: store_ok_def)
  from run_many_invariant [OF this assms(2)] show ?thesis
    by (auto simp: run_many_snoc dest: run_agent_first_previous)
qed

section \<open>The generator without previous data, its memo, and the failing search\<close>

lemma summary_not_comparison: "\<not> is_comparison_prompt (summary_prompt k texts)"
  by (simp add: summary_prompt_def nl_def)

lemma comparison_is_comparison: "is_comparison_prompt (comparison_prompt k pt texts)"
  by (simp add: comparison_prompt_def nl_def)

lemma trend_analysis_no_previous:
  "\<not> truthy p \<Longrightarrow> trend_analysis E k texts p w = (Inr no_previous_data_text, w)"
  by (simp add: trend_analysis_def)

lemma generate_analysis_body_no_previous:
  assumes "\<not> truthy p" and "generate_analysis_body E k a p w = (res, w2)"
  shows "(\<forall>s t. res = Inr (s, t) \<longrightarrow> t = no_previous_data_text)
         \<and> (case res of
               Inl e \<Rightarrow> llm_log w2 = llm_log w
             | Inr r \<Rightarrow> (\<exists>texts. article_texts E a = Inr texts
                           \<and> llm_log w2 = llm_log w @ [summary_prompt k texts]))"
  using assms(2)
proof (cases rule: generate_analysis_body_cases)
  case (digest_raises e)
  then show ?thesis by simp
next
  case (trend_raises texts e)
  with trend_analysis_no_previous [OF assms(1), of E k texts w] show ?thesis by simp
next
  case (returns texts trend w1 summary)
  with trend_analysis_no_previous [OF assms(1), of E k texts w]
  have "trend = no_previous_data_text" "w1 = w" by simp_all
  with returns summary_report_frame(5) [OF returns(3)] show ?thesis by simp
qed

text \<open>
  C3. When the previous-articles argument is empty or \<^verbatim>\<open>None\<close>, a call that returns gives
  the fixed sentence about missing previous data as trend change, and no comparison
  prompt is sent to the model during the call: at most the summary prompt is.
\<close>

theorem no_previous_no_trend_call:
  assumes "cache_sound E w" and "\<not> truthy p" and "generate_analysis E k a p w = (res, w2)"
  shows "(\<forall>s t. res = Inr (s, t) \<longrightarrow> t = no_previous_data_text)
         \<and> \<not> list_ex is_comparison_prompt (sent_between w w2)
         \<and> (sent_between w w2 = []
            \<or> (\<exists>texts. article_texts E a = Inr texts
                  \<and> sent_between w w2 = [summary_prompt k texts]))"
  using assms(3)
proof (cases rule: generate_analysis_cases)
  case (hit r shown)
  with assms(1) obtain w0 w1 where "generate_analysis_body E k a p w0 = (Inr r, w1)"
    unfolding cache_sound_def by blast
  from generate_analysis_body_no_previous [OF assms(2) this] hit show ?thesis
    by (simp add: sent_between_def)
next
  case (miss_raises e)
  from generate_analysis_body_no_previous [OF assms(2) miss_raises(2)] miss_raises(3)
  show ?thesis by (simp add: sent_between_def)
next
  case (miss_returns r w1)
  from generate_analysis_body_no_previous [OF assms(2) miss_returns(2)]
  obtain texts where "\<forall>s t. r = (s, t) \<longrightarrow> t = no_previous_data_text"
    and "article_texts E a = Inr texts" and "llm_log w1 = llm_log w @ [summary_prompt k texts]"
    by auto
  with miss_returns(3,4) show ?thesis
    by (simp add: sent_between_def summary_not_comparison del: is_comparison_prompt.simps)
qed

text \<open>
  A failing model call never ends the function: once the digests are built, the body
  returns a pair. A failing summary call gives the summary its failure text and leaves
  the trend change as the trend part computed it; a failing trend call leaves the trend
  change at its initial sentence.
\<close>

lemma generate_analysis_body_returns:
  assumes "article_texts E a = Inr texts"
    and "truthy p \<Longrightarrow> \<exists>pt. previous_article_texts E p = Inr pt"
  shows "\<exists>r w2. generate_analysis_body E k a p w = (Inr r, w2)"
proof -
  obtain tr w1 where t: "trend_analysis E k texts p w = (tr, w1)"
    by (cases "trend_analysis E k texts p w")
  have "\<exists>trend. tr = Inr trend"
  proof (cases "truthy p")
    case True
    with assms(2) obtain pt where pt: "previous_article_texts E p = Inr pt" by blast
    show ?thesis
    proof (cases "chat_create E (length (llm_log w)) (comparison_prompt k pt texts)")
      case (Inl e)
      with True pt t [symmetric] show ?thesis
        by (simp add: trend_analysis_def chat_completion_def)
    next
      case (Inr content)
      with True pt t [symmetric] show ?thesis
        by (simp add: trend_analysis_def chat_completion_def)
    qed
  next
    case False
    with t [symmetric] trend_analysis_no_previous [OF False, of E k texts w] show ?thesis
      by simp
  qed
  then obtain trend where "tr = Inr trend" by blast
  with assms(1) t show ?thesis
    by (cases "summary_report E (summary_prompt k texts) w1")
       (simp add: generate_analysis_body_def)
qed

lemma summary_report_failure:
  "chat_create E (length (llm_log w)) prompt = Inl e \<Longrightarrow>
     fst (summary_report E prompt w) = summary_failed_text"
  by (simp add: summary_report_def chat_completion_def)

lemma trend_analysis_failure:
  assumes "truthy p" and "previous_article_texts E p = Inr pt"
    and "chat_create E (length (llm_log w)) (comparison_prompt k pt texts) = Inl e"
  shows "fst (trend_analysis E k texts p w) = Inr no_previous_data_text"
  using assms by (simp add: trend_analysis_def chat_completion_def)

lemma generate_analysis_cached:
  assumes "generate_analysis E k a p w = (Inr r, w1)"
  shows "\<exists>shown. cache w1 (k, a, p) = Some (r, shown)"
  using assms by (cases rule: generate_analysis_cases) auto

text \<open>
  C7. Once a call has returned a pair, every later call with the same keyword, current
  articles and previous articles, in any world whose memo table still holds what the first
  call left, returns the same pair and sends nothing to the model.
\<close>

theorem generate_analysis_memo:
  assumes "generate_analysis E k a p w = (Inr r, w1)" and "cache w1 \<subseteq>\<^sub>m cache w2"
  shows "fst (generate_analysis E k a p w2) = Inr r
         \<and> llm_log (snd (generate_analysis E k a p w2)) = llm_log w2"
proof -
  from generate_analysis_cached [OF assms(1)] obtain shown
    where "cache w1 (k, a, p) = Some (r, shown)" by blast
  with assms(2) have "cache w2 (k, a, p) = Some (r, shown)"
    by (auto simp: map_le_def dom_def)
  then show ?thesis by (simp add: generate_analysis_def)
qed

lemma run_agent_cache_le: "cache w \<subseteq>\<^sub>m cache (snd (run_agent E ks w))"
proof -
  obtain res w' where run: "run_agent E ks w = (res, w')"
    by (cases "run_agent E ks w")
  from run have "cache w \<subseteq>\<^sub>m cache w'"
  proof (cases rule: run_agent_cases)
    case (aborted e)
    with run_loop_frame [OF aborted(1)] show ?thesis by simp
  next
    case (completed batch wl)
    with run_loop_frame [OF completed(1)] show ?thesis by simp
  qed
  with run show ?thesis by simp
qed

lemma run_many_cache_le: "cache w \<subseteq>\<^sub>m cache (run_many E kss w)"
proof (induction kss arbitrary: w)
  case Nil
  show ?case by simp
next
  case (Cons ks kss)
  from run_agent_cache_le [of w E ks] Cons [of "snd (run_agent E ks w)"] show ?case
    by (auto intro: map_le_trans)
qed

text \<open>
  C8, as amended. The function returns a value for every input and never raises. When the
  request succeeded with a status outside 400..599 and a JSON object whose \<^verbatim>\<open>response\<close>
  is an object holding \<^verbatim>\<open>results\<close>, it returns the value of \<^verbatim>\<open>results\<close> as it is, a list
  only when the envelope holds a list there. In every other case (a transport failure, an
  error status, a body that is not JSON or not an object, a missing \<^verbatim>\<open>response\<close> or
  \<^verbatim>\<open>results\<close> key, a \<^verbatim>\<open>response\<close> that is not an object) it returns the empty list.
\<close>

theorem guardian_search_total:
  "(\<forall>st kvs r v.
      http_get E (http_calls w) k ps = HttpResponse st (Some (JObj kvs))
      \<and> (st < 400 \<or> 600 \<le> st)
      \<and> map_of kvs ''response'' = Some (JObj r)
      \<and> map_of r ''results'' = Some v
      \<longrightarrow> fst (guardian_search E k ps w) = v)
   \<and> ((\<forall>st kvs r v.
          \<not> (http_get E (http_calls w) k ps = HttpResponse st (Some (JObj kvs))
             \<and> (st < 400 \<or> 600 \<le> st)
             \<and> map_of kvs ''response'' = Some (JObj r)
             \<and> map_of r ''results'' = Some v))
        \<longrightarrow> fst (guardian_search E k ps w) = JArr [])"
proof (intro conjI allI impI)
  fix st kvs r v
  assume "http_get E (http_calls w) k ps = HttpResponse st (Some (JObj kvs))
      \<and> (st < 400 \<or> 600 \<le> st)
      \<and> map_of kvs ''response'' = Some (JObj r)
      \<and> map_of r ''results'' = Some v"
  then have "guardian_request E k ps (http_calls w) = Inr v"
    by (auto simp: guardian_request_def)
  then show "fst (guardian_search E k ps w) = v"
    by (simp add: guardian_search_def Let_def)
next
  assume none: "\<forall>st kvs r v.
          \<not> (http_get E (http_calls w) k ps = HttpResponse st (Some (JObj kvs))
             \<and> (st < 400 \<or> 600 \<le> st)
             \<and> map_of kvs ''response'' = Some (JObj r)
             \<and> map_of r ''results'' = Some v)"
  show "fst (guardian_search E k ps w) = JArr []"
  proof (cases "guardian_request E k ps (http_calls w)")
    case (Inl e)
    then show ?thesis by (simp add: guardian_search_def Let_def)
  next
    case (Inr v)
    then have v: "fst (guardian_search E k ps w) = v"
      by (simp add: guardian_search_def Let_def)
    from Inr obtain st data where r: "http_get E (http_calls w) k ps = HttpResponse st (Some data)"
      and st: "st < 400 \<or> 600 \<le> st"
      and d: "ebind (dict_get data ''response'' (JObj [])) (\<lambda>r. dict_get r ''results'' (JArr [])) = Inr v"
      by (auto simp: guardian_request_def split: http_outcome.splits if_splits option.splits)
    from d obtain kvs where data: "data = JObj kvs"
      by (cases data) simp_all
    show ?thesis
    proof (cases "map_of kvs ''response''")
      case None
      with d data v show ?thesis by simp
    next
      case (Some resp)
      with d data obtain rs where resp: "resp = JObj rs"
        by (cases resp) simp_all
      show ?thesis
      proof (cases "map_of rs ''results''")
        case None
        with d data Some resp v show ?thesis by simp
      next
        case res: (Some x)
        with none r st data Some resp show ?thesis by blast
      qed
    qed
  qed
qed

text \<open>
  C5, as amended. When the search fails by a transport failure or a status from 400 to
  599, the client shows an error message (\<^verbatim>\<open>st.error\<close>) and returns the empty list; the
  loop then shows a warning for that keyword and goes on with the remaining keywords.
\<close>

theorem guardian_search_failure_recovered:
  assumes "http_get E (http_calls w) k 10 = TransportFailure
           \<or> (\<exists>status body. http_get E (http_calls w) k 10 = HttpResponse status body
                 \<and> 400 \<le> status \<and> status < 600)"
  shows "\<exists>e. guardian_search E k 10 w
               = (JArr [], show_msg (guardian_error E k e) (w\<lparr>http_calls := Suc (http_calls w)\<rparr>))
             \<and> run_loop E (k # ks) nr w
               = run_loop E ks nr
                   (show_msg (no_articles_warning k)
                      (show_msg (guardian_error E k e) (w\<lparr>http_calls := Suc (http_calls w)\<rparr>)))"
proof -
  from assms obtain e where "guardian_request E k 10 (http_calls w) = Inl e"
    by (auto simp: guardian_request_def)
  then have "guardian_search E k 10 w
      = (JArr [], show_msg (guardian_error E k e) (w\<lparr>http_calls := Suc (http_calls w)\<rparr>))"
    by (simp add: guardian_search_def Let_def)
  then show ?thesis by auto
qed

section \<open>Runs that complete\<close>

text \<open>
  A run completes when every fetch in it returns nothing or a list of article records,
  the stored reports being as every run leaves them.
\<close>

lemma title_line_dict: "is_dict a \<Longrightarrow> \<exists>l. title_line E a = Inr l"
  by (cases a) (simp_all add: title_line_def)

lemma emap_title_line_dicts:
  "list_all is_dict as \<Longrightarrow> \<exists>ls. emap (title_line E) as = Inr ls"
proof (induction as)
  case Nil
  show ?case by simp
next
  case (Cons a as)
  then obtain l ls where "title_line E a = Inr l" "emap (title_line E) as = Inr ls"
    using title_line_dict [of a E] by auto
  then show ?case by simp
qed

lemma previous_article_texts_dicts:
  "list_all is_dict ps \<Longrightarrow> \<exists>pt. previous_article_texts E (JArr ps) = Inr pt"
  using emap_title_line_dicts [of ps E] by (auto simp: previous_article_texts_def)

lemma article_texts_records:
  "list_all article_record as \<Longrightarrow> \<exists>texts. article_texts E (JArr as) = Inr texts"
  by (simp add: article_texts_def emap_all_Inr [where g = digest_line] article_line_record
        list_all_iff)

lemma generate_analysis_returns:
  assumes "list_all article_record as"
    and "p = JNull \<or> (\<exists>ps. p = JArr ps \<and> ps \<noteq> [] \<and> list_all is_dict ps)"
  shows "\<exists>r w2. generate_analysis E k (JArr as) p w = (Inr r, w2)"
proof -
  obtain texts where t: "article_texts E (JArr as) = Inr texts"
    using article_texts_records [OF assms(1)] by blast
  have p: "truthy p \<Longrightarrow> \<exists>pt. previous_article_texts E p = Inr pt"
    using assms(2) previous_article_texts_dicts by auto
  obtain res w2 where g: "generate_analysis E k (JArr as) p w = (res, w2)"
    by (cases "generate_analysis E k (JArr as) p w")
  from g show ?thesis
  proof (cases rule: generate_analysis_cases)
    case (miss_raises e)
    with generate_analysis_body_returns [OF t p, of k w] show ?thesis by auto
  qed (use g in auto)
qed

lemma run_loop_completes:
  assumes "store_ok (reports w)"
    and "\<forall>i < length ks. \<not> truthy (fetched E (ks ! i) (http_calls w + i))
            \<or> (\<exists>as. fetched E (ks ! i) (http_calls w + i) = JArr as \<and> list_all article_record as)"
  shows "\<exists>batch wl. run_loop E ks nr w = (Inr batch, wl)"
  using assms
proof (induction ks arbitrary: nr w)
  case Nil
  show ?case by simp
next
  case (Cons k ks)
  have rest: "\<forall>i < length ks. \<not> truthy (fetched E (ks ! i) (http_calls v + i))
            \<or> (\<exists>as. fetched E (ks ! i) (http_calls v + i) = JArr as \<and> list_all article_record as)"
    if "http_calls v = Suc (http_calls w)" for v
  proof (intro allI impI)
    fix i assume "i < length ks"
    with Cons.prems(2) [rule_format, of "Suc i"] that
    show "\<not> truthy (fetched E (ks ! i) (http_calls v + i))
            \<or> (\<exists>as. fetched E (ks ! i) (http_calls v + i) = JArr as \<and> list_all article_record as)"
      by simp
  qed
  obtain res where res: "run_loop E (k # ks) nr w = res" by simp
  from res show ?case
  proof (cases rule: run_loop_Cons_cases)
    case (skip a w1)
    let ?w = "show_msg (no_articles_warning k) w1"
    have h: "http_calls ?w = Suc (http_calls w)" "reports ?w = reports w"
      using guardian_search_frame [OF skip(1)] by simp_all
    from Cons.IH [of ?w nr] Cons.prems(1) rest [OF h(1)] h(2) skip(3) res show ?thesis by simp
  next
    case (raises a w1 e w2)
    have a: "a = fetched E k (http_calls w)"
      using guardian_search_fst [of E k w] raises(1) by simp
    with raises(2) Cons.prems(2) [rule_format, of 0]
    obtain as where as: "a = JArr as" "list_all article_record as" by auto
    have "store_ok (reports w1)"
      using guardian_search_frame [OF raises(1)] Cons.prems(1) by simp
    from generate_analysis_returns [OF as(2) previous_current_ok [OF this], of E k k w1]
      raises(3) as(1)
    show ?thesis by simp
  next
    case (stores a w1 s t w2)
    let ?w = "w2\<lparr>clock_reads := Suc (clock_reads w2)\<rparr>"
    have h: "http_calls ?w = Suc (http_calls w)" "reports ?w = reports w"
      using guardian_search_frame [OF stores(1)] generate_analysis_frame [OF stores(3)] by simp_all
    from Cons.IH [of ?w] Cons.prems(1) rest [OF h(1)] h(2) stores(4) res show ?thesis by simp
  qed
qed

lemma run_agent_completes:
  assumes "store_ok (reports w)"
    and "\<forall>i < length ks. \<not> truthy (fetched E (ks ! i) (http_calls w + i))
            \<or> (\<exists>as. fetched E (ks ! i) (http_calls w + i) = JArr as \<and> list_all article_record as)"
  shows "fst (run_agent E ks w) = Inr ()"
proof -
  have "\<exists>batch wl. run_loop E ks Map.empty (show_msg searching_info w) = (Inr batch, wl)"
    by (rule run_loop_completes) (use assms in simp_all)
  then show ?thesis by (auto simp: run_agent_def)
qed

section \<open>The properties on sample data\<close>

lemmas sample_defs =
  sample_env_def net_ok_def net_down_def net_null_def net_mixed_def model_ok_def
  model_first_fails_def
  envelope_def start_world_def older_world_def sample_articles_def older_articles_def

lemmas script_defs =
  guardian_search_def guardian_request_def generate_analysis_def generate_analysis_body_def
  article_texts_def article_line_def previous_article_texts_def title_line_def
  trend_analysis_def summary_report_def chat_completion_def show_msg_def
  previous_current_def new_report_def run_agent_def fetched_def Let_def

lemma cache_sound_start: "cache_sound E start_world"
  by (simp add: cache_sound_def start_world_def)




theorem run_agent_empty_fetch_untouched_witness:
  "\<not> truthy (fetched (sample_env net_down model_ok) ''quantum'' (http_calls older_world))
   \<and> reports (snd (run_agent (sample_env net_down model_ok) [''quantum''] older_world)) ''quantum''
       = reports older_world ''quantum''"
proof -
  let ?E = "sample_env net_down model_ok"
  have empty: "\<not> truthy (fetched ?E ''quantum'' (http_calls older_world))"
    by (simp add: fetched_def guardian_request_def sample_env_def net_down_def)
  then have fetch: "\<forall>i < length [''quantum'']. [''quantum''] ! i = ''quantum'' \<longrightarrow>
       \<not> truthy (fetched ?E ''quantum'' (http_calls older_world + i))"
    by simp
  from run_agent_empty_fetch_untouched [OF prod.collapse [symmetric] fetch] empty
  show ?thesis by blast
qed


theorem store_invariant_witness:
  "reports start_world = Map.empty
   \<and> store_ok (reports (run_many (sample_env net_ok model_ok) [[''quantum''], [''quantum'']] start_world))
   \<and> reports (run_many (sample_env net_ok model_ok) [] start_world) ''quantum'' = None
   \<and> (\<exists>r. reports (run_many (sample_env net_ok model_ok) ([] @ [[''quantum'']]) start_world) ''quantum''
            = Some r
         \<and> r ''previous'' = Some (JArr []))"
proof -
  let ?E = "sample_env net_ok model_ok"
  have e: "reports start_world = Map.empty"
    by (simp add: start_world_def)
  have r: "\<exists>r. reports (run_many ?E ([] @ [[''quantum'']]) start_world) ''quantum'' = Some r"
    by (simp add: script_defs sample_defs)
  have n: "reports (run_many ?E [] start_world) ''quantum'' = None"
    by (simp add: start_world_def)
  from store_invariant [OF e cache_sound_start, of ?E "[[''quantum''], [''quantum'']]"]
    store_invariant [OF e cache_sound_start, of ?E "[]"] e r n
  show ?thesis by blast
qed

theorem no_previous_no_trend_call_witness:
  "\<not> truthy JNull
   \<and> fst (generate_analysis (sample_env net_ok model_ok) ''quantum'' (JArr sample_articles) JNull
            start_world)
       = Inr (''generated text'', no_previous_data_text)
   \<and> \<not> list_ex is_comparison_prompt
          (sent_between start_world
             (snd (generate_analysis (sample_env net_ok model_ok) ''quantum''
                     (JArr sample_articles) JNull start_world)))"
proof -
  let ?E = "sample_env net_ok model_ok"
  have v: "fst (generate_analysis ?E ''quantum'' (JArr sample_articles) JNull start_world)
             = Inr (''generated text'', no_previous_data_text)"
    by (simp add: script_defs sample_defs)
  have f: "\<not> truthy JNull" by simp
  from no_previous_no_trend_call [OF cache_sound_start f prod.collapse [symmetric]] v
  show ?thesis by simp
qed

theorem generate_analysis_memo_witness:
  "fst (generate_analysis (sample_env net_ok model_ok) ''quantum'' (JArr sample_articles)
          (JArr older_articles) start_world) = Inr (''generated text'', ''generated text'')
   \<and> fst (generate_analysis (sample_env net_ok model_ok) ''quantum'' (JArr sample_articles)
            (JArr older_articles)
            (snd (generate_analysis (sample_env net_ok model_ok) ''quantum''
                    (JArr sample_articles) (JArr older_articles) start_world)))
       = Inr (''generated text'', ''generated text'')
   \<and> llm_log (snd (generate_analysis (sample_env net_ok model_ok) ''quantum''
                     (JArr sample_articles) (JArr older_articles)
                     (snd (generate_analysis (sample_env net_ok model_ok) ''quantum''
                             (JArr sample_articles) (JArr older_articles) start_world))))
       = llm_log (snd (generate_analysis (sample_env net_ok model_ok) ''quantum''
                         (JArr sample_articles) (JArr older_articles) start_world))"
proof -
  let ?E = "sample_env net_ok model_ok"
  let ?call = "generate_analysis ?E ''quantum'' (JArr sample_articles) (JArr older_articles)"
  have v: "fst (?call start_world) = Inr (''generated text'', ''generated text'')"
    by (simp add: script_defs sample_defs)
  then have first: "?call start_world = (Inr (''generated text'', ''generated text''), snd (?call start_world))"
    by (simp add: prod_eq_iff)
  from generate_analysis_memo [OF first map_le_refl] v show ?thesis by simp
qed

text \<open>
  C4. With previous articles present and the trend call failing, the returned trend
  change is the sentence about missing previous data: the handler of the trend call
  assigns no failure text, unlike the handler of the summary call.
\<close>

theorem trend_failure_keeps_no_data_text:
  "fst (generate_analysis (sample_env net_ok model_first_fails) ''quantum''
          (JArr sample_articles) (JArr older_articles) start_world)
     = Inr (''generated text'', no_previous_data_text)"
  by (simp add: script_defs sample_defs)

text \<open>
  C5 as stated fails: on a response with status 500 the client returns the empty list
  having shown an error, and no warning.
\<close>

theorem guardian_search_reports_error_not_warning:
  "http_get (sample_env net_down model_ok) (http_calls start_world) ''quantum'' 10
     = HttpResponse 500 None
   \<and> fst (guardian_search (sample_env net_down model_ok) ''quantum'' 10 start_world) = JArr []
   \<and> \<not> list_ex is_warning
         (ui (snd (guardian_search (sample_env net_down model_ok) ''quantum'' 10 start_world)))
   \<and> list_ex is_error
         (ui (snd (guardian_search (sample_env net_down model_ok) ''quantum'' 10 start_world)))"
  by (simp add: script_defs sample_defs guardian_error_def)

theorem guardian_search_failure_recovered_witness:
  "http_get (sample_env net_down model_ok) (http_calls start_world) ''quantum'' 10
     = HttpResponse 500 None
   \<and> (400::nat) \<le> 500 \<and> (500::nat) < 600
   \<and> fst (guardian_search (sample_env net_down model_ok) ''quantum'' 10 start_world) = JArr []
   \<and> fst (run_loop (sample_env net_down model_ok) [''quantum'', ''climate''] Map.empty start_world)
       = fst (run_loop (sample_env net_down model_ok) [''climate''] Map.empty
                (show_msg (no_articles_warning ''quantum'')
                   (snd (guardian_search (sample_env net_down model_ok) ''quantum'' 10 start_world))))"
proof -
  let ?E = "sample_env net_down model_ok"
  have h: "http_get ?E (http_calls start_world) ''quantum'' 10 = HttpResponse 500 None"
    by (simp add: sample_env_def net_down_def)
  then have "http_get ?E (http_calls start_world) ''quantum'' 10 = TransportFailure
             \<or> (\<exists>status body. http_get ?E (http_calls start_world) ''quantum'' 10
                   = HttpResponse status body \<and> 400 \<le> status \<and> status < 600)"
    by simp
  from guardian_search_failure_recovered [OF this, of "[''climate'']" Map.empty] h
  show ?thesis by auto
qed

text \<open>
  C8 as stated fails: for the envelope \<^verbatim>\<open>{"response": {"status": "ok", "results": null}}\<close>
  the function returns \<^verbatim>\<open>None\<close>, which is not a list.
\<close>

theorem guardian_search_returns_null:
  "\<not> is_list (fst (guardian_search (sample_env net_null model_ok) ''quantum'' 10 start_world))"
  by (simp add: script_defs sample_defs)

theorem guardian_search_total_witness:
  "fst (guardian_search (sample_env net_ok model_ok) ''quantum'' 10 start_world)
     = JArr sample_articles
   \<and> fst (guardian_search (sample_env net_null model_ok) ''quantum'' 10 start_world) = JNull
   \<and> fst (guardian_search (sample_env net_down model_ok) ''quantum'' 10 start_world) = JArr []"
proof -
  have a: "fst (guardian_search (sample_env net_ok model_ok) ''quantum'' 10 start_world)
             = JArr sample_articles"
    using guardian_search_total [of "sample_env net_ok model_ok" start_world "''quantum''" 10]
    by (simp add: sample_env_def net_ok_def envelope_def)
  have b: "fst (guardian_search (sample_env net_null model_ok) ''quantum'' 10 start_world) = JNull"
    using guardian_search_total [of "sample_env net_null model_ok" start_world "''quantum''" 10]
    by (simp add: sample_env_def net_null_def envelope_def)
  have c: "fst (guardian_search (sample_env net_down model_ok) ''quantum'' 10 start_world) = JArr []"
    using guardian_search_total [of "sample_env net_down model_ok" start_world "''quantum''" 10]
    by (simp add: sample_env_def net_down_def)
  from a b c show ?thesis by simp
qed

end
